theory Spec2Isabelle
  imports Main "HOL-Library.Sublist"
begin

section \<open>Gallery tag filter (src/components/gallery/gallery-client.tsx)\<close>

text \<open>
  The component holds \<open>photos : PhotoMetadata[]\<close>, filled from an unvalidated JSON response,
  and a \<open>selectedTag\<close> string read from the query string (\<open>"All"\<close> when absent). The two
  derived values are
  \<^verbatim>\<open>
  const uniqueTags = Array.from(new Set(photos.flatMap((photo) => photo.tags)));
  const allTags = ["All", ...Array.from(uniqueTags).filter(Boolean)];
  const filteredPhotos =
    selectedTag === "All"
      ? photos
      : photos.filter((photo) => photo.tags.includes(selectedTag));
  \<close>
  At run time the \<open>tags\<close> property of a photo is either an array of strings or
  \<open>undefined\<close> (property missing); \<open>None\<close> stands for \<open>undefined\<close>. All other properties
  of a photo are never read by this code and are kept as one opaque field.
\<close>

datatype js_error = TypeError

record 'p PhotoMetadata =
  tags :: "string list option"
  payload :: 'p

text \<open>
  \<open>Array.prototype.flatMap\<close>: the callback's result is spliced in when it is an array and
  appended as a single element otherwise, so a missing \<open>tags\<close> contributes one
  \<open>undefined\<close> element. Elements are strings or \<open>undefined\<close> (\<open>None\<close>).
\<close>

fun flatMap_tags :: "'p PhotoMetadata list \<Rightarrow> string option list" where
  "flatMap_tags [] = []"
| "flatMap_tags (photo # rest) =
     (case tags photo of
        None \<Rightarrow> [None]
      | Some ts \<Rightarrow> map Some ts) @ flatMap_tags rest"

text \<open>
  \<open>new Set(iterable)\<close> adds the elements one by one; a \<open>Set\<close> iterates in insertion
  order and \<open>add\<close> of a value already present changes nothing. \<open>Array.from\<close> of the set
  lists it in that order.
\<close>

definition Set_add :: "'a list \<Rightarrow> 'a \<Rightarrow> 'a list" where
  "Set_add s x = (if x \<in> set s then s else s @ [x])"

definition new_Set :: "'a list \<Rightarrow> 'a list" where
  "new_Set xs = foldl Set_add [] xs"

definition Array_from :: "'a list \<Rightarrow> 'a list" where
  "Array_from s = s"

text \<open>\<open>Boolean(v)\<close> on a string or \<open>undefined\<close>: false for \<open>undefined\<close> and for \<open>""\<close>.\<close>

fun Boolean :: "string option \<Rightarrow> bool" where
  "Boolean None = False"
| "Boolean (Some s) = (s \<noteq> [])"

definition uniqueTags :: "'p PhotoMetadata list \<Rightarrow> string option list" where
  "uniqueTags photos = Array_from (new_Set (flatMap_tags photos))"

definition allTags :: "'p PhotoMetadata list \<Rightarrow> string option list" where
  "allTags photos = Some ''All'' # filter Boolean (Array_from (uniqueTags photos))"

text \<open>
  \<open>photo.tags.includes(selectedTag)\<close>: reading \<open>includes\<close> of \<open>undefined\<close> throws a
  \<open>TypeError\<close>; on an array it is membership under strict equality of strings.
\<close>

definition tags_includes :: "'p PhotoMetadata \<Rightarrow> string \<Rightarrow> js_error + bool" where
  "tags_includes photo selectedTag =
     (case tags photo of
        None \<Rightarrow> Inl TypeError
      | Some ts \<Rightarrow> Inr (selectedTag \<in> set ts))"

text \<open>
  \<open>Array.prototype.filter\<close> calls the callback on the elements from left to right and
  builds a new array of those it accepts; an exception of the callback ends the call.
\<close>

fun Array_filter :: "('a \<Rightarrow> js_error + bool) \<Rightarrow> 'a list \<Rightarrow> js_error + 'a list" where
  "Array_filter cb [] = Inr []"
| "Array_filter cb (x # xs) =
     (case cb x of
        Inl e \<Rightarrow> Inl e
      | Inr keep \<Rightarrow>
          (case Array_filter cb xs of
             Inl e \<Rightarrow> Inl e
           | Inr ys \<Rightarrow> Inr (if keep then x # ys else ys)))"

definition filteredPhotos :: "'p PhotoMetadata list \<Rightarrow> string \<Rightarrow> js_error + 'p PhotoMetadata list" where
  "filteredPhotos photos selectedTag =
     (if selectedTag = ''All'' then Inr photos
      else Array_filter (\<lambda>photo. tags_includes photo selectedTag) photos)"

subsection \<open>Vocabulary of the specification\<close>

text \<open>
  A record of the data model carries a tags list; \<open>has_tags_list\<close> says that a collection is
  made of such records. \<open>tag_list\<close> reads the list,
  a missing one as empty, and \<open>has_tag T\<close> is membership of \<open>T\<close> in it.
\<close>

definition has_tags_list :: "'p PhotoMetadata list \<Rightarrow> bool" where
  "has_tags_list R = list_all (\<lambda>photo. tags photo \<noteq> None) R"

definition tag_list :: "'p PhotoMetadata \<Rightarrow> string list" where
  "tag_list photo = (case tags photo of None \<Rightarrow> [] | Some ts \<Rightarrow> ts)"

definition has_tag :: "string \<Rightarrow> 'p PhotoMetadata \<Rightarrow> bool" where
  "has_tag T photo = (T \<in> set (tag_list photo))"

text \<open>
  First-appearance order: keep the first occurrence of every value, drop the later ones.
\<close>

fun first_seen :: "'a list \<Rightarrow> 'a list" where
  "first_seen [] = []"
| "first_seen (x # xs) = x # first_seen (filter (\<lambda>y. y \<noteq> x) xs)"

subsection \<open>The same code on a store\<close>

text \<open>
  Arrays and objects are mutable and shared by reference. To say what the code leaves
  untouched, the objects are placed in a store: photo objects (with their tags array and
  their other properties), arrays of references to photo objects (\<open>photos\<close> and the result
  of \<open>filter\<close>), and arrays or sets of strings (the intermediate and final tag lists).
  \<open>next_free\<close> is the first address not yet allocated. Each built-in used by the code reads
  its operands and allocates its result; none of them writes to an existing object.
\<close>

record 'p heap =
  photo_obj :: "nat \<Rightarrow> 'p PhotoMetadata"
  ref_array :: "nat \<Rightarrow> nat list"
  val_array :: "nat \<Rightarrow> string option list"
  next_free :: nat

definition alloc_vals :: "'p heap \<Rightarrow> string option list \<Rightarrow> 'p heap \<times> nat" where
  "alloc_vals H xs =
     (H\<lparr>val_array := (val_array H)(next_free H := xs), next_free := Suc (next_free H)\<rparr>,
      next_free H)"

definition alloc_refs :: "'p heap \<Rightarrow> nat list \<Rightarrow> 'p heap \<times> nat" where
  "alloc_refs H rs =
     (H\<lparr>ref_array := (ref_array H)(next_free H := rs), next_free := Suc (next_free H)\<rparr>,
      next_free H)"

text \<open>The collection that an array of references denotes in a store.\<close>

definition photos_at :: "'p heap \<Rightarrow> nat \<Rightarrow> 'p PhotoMetadata list" where
  "photos_at H arr = map (photo_obj H) (ref_array H arr)"

definition flatMap_tags_h :: "'p heap \<Rightarrow> nat \<Rightarrow> 'p heap \<times> nat" where
  "flatMap_tags_h H arr = alloc_vals H (flatMap_tags (map (photo_obj H) (ref_array H arr)))"

definition new_Set_h :: "'p heap \<Rightarrow> nat \<Rightarrow> 'p heap \<times> nat" where
  "new_Set_h H a = alloc_vals H (new_Set (val_array H a))"

definition Array_from_h :: "'p heap \<Rightarrow> nat \<Rightarrow> 'p heap \<times> nat" where
  "Array_from_h H a = alloc_vals H (Array_from (val_array H a))"

definition filter_Boolean_h :: "'p heap \<Rightarrow> nat \<Rightarrow> 'p heap \<times> nat" where
  "filter_Boolean_h H a = alloc_vals H (filter Boolean (val_array H a))"

definition All_and_spread_h :: "'p heap \<Rightarrow> nat \<Rightarrow> 'p heap \<times> nat" where
  "All_and_spread_h H a = alloc_vals H (Some ''All'' # val_array H a)"

definition uniqueTags_h :: "'p heap \<Rightarrow> nat \<Rightarrow> 'p heap \<times> nat" where
  "uniqueTags_h H photos =
     (let (H1, flat) = flatMap_tags_h H photos;
          (H2, s) = new_Set_h H1 flat
      in Array_from_h H2 s)"

definition allTags_h :: "'p heap \<Rightarrow> nat \<Rightarrow> 'p heap \<times> nat" where
  "allTags_h H photos =
     (let (H1, unique) = uniqueTags_h H photos;
          (H2, copy) = Array_from_h H1 unique;
          (H3, truthy) = filter_Boolean_h H2 copy
      in All_and_spread_h H3 truthy)"

text \<open>
  \<open>filteredPhotos\<close> is \<open>photos\<close> itself (the same reference) for \<open>"All"\<close>, and otherwise a
  new array holding the references accepted by the callback; when the callback throws,
  no result exists.
\<close>

definition filteredPhotos_h :: "'p heap \<Rightarrow> nat \<Rightarrow> string \<Rightarrow> 'p heap \<times> (js_error + nat)" where
  "filteredPhotos_h H photos selectedTag =
     (if selectedTag = ''All'' then (H, Inr photos)
      else
        (case Array_filter (\<lambda>r. tags_includes (photo_obj H r) selectedTag) (ref_array H photos) of
           Inl e \<Rightarrow> (H, Inl e)
         | Inr rs \<Rightarrow> (let (H', a) = alloc_refs H rs in (H', Inr a))))"

text \<open>
  \<open>untouched H H'\<close>: every object allocated in \<open>H\<close> is the same in \<open>H'\<close> (photo objects with
  all their properties, arrays with all their elements), and nothing was deallocated.
\<close>

definition untouched :: "'p heap \<Rightarrow> 'p heap \<Rightarrow> bool" where
  "untouched H H' =
     (next_free H \<le> next_free H'
      \<and> list_all (\<lambda>a. photo_obj H' a = photo_obj H a
                     \<and> ref_array H' a = ref_array H a
                     \<and> val_array H' a = val_array H a) [0..<next_free H])"

text \<open>
  A small store: two photo objects at addresses 0 and 1 and the \<open>photos\<close> array at
  address 2.
\<close>

definition example_heap :: "nat heap" where
  "example_heap =
     \<lparr>photo_obj = (\<lambda>a. \<lparr>tags = None, payload = 0\<rparr>)
        (0 := \<lparr>tags = Some [''a''], payload = 10\<rparr>,
         1 := \<lparr>tags = Some [''b'', ''a''], payload = 11\<rparr>),
      ref_array = (\<lambda>a. [])(2 := [0, 1]),
      val_array = (\<lambda>a. []),
      next_free = 3\<rparr>"

section \<open>Contribution calendar window (\<open>filterLastNMonths\<close> of the coding-stats component)\<close>

text \<open>
  \<^verbatim>\<open>
  const filterLastNMonths = (contributions, months = 11) => {
    const today = new Date();
    let cutoffMonth = today.getMonth() - months;
    let cutoffYear = today.getFullYear();
    while (cutoffMonth < 0) {
      cutoffMonth += 12;
      cutoffYear -= 1;
    }
    const cutoffDate = new Date(cutoffYear, cutoffMonth, today.getDate());
    return contributions.filter((day) => {
      const date = new Date(day.date);
      return date >= cutoffDate;
    });
  };
  \<close>
  The function is handed to the calendar as \<open>transformData\<close>. It reads the clock, takes the
  local calendar fields of the instant, and compares time values.
\<close>

subsection \<open>The host's \<open>Date\<close>\<close>

text \<open>
  A \<open>Date\<close> holds a time value: milliseconds since 1970-01-01T00:00:00Z, or \<open>NaN\<close> (an
  invalid date, \<open>None\<close> here). The day and calendar functions below are those of the
  language definition; months are numbered from 0 (January) to 11 (December). Integer
  division rounds down, as \<open>floor\<close> does there.
\<close>

definition msPerDay :: int where
  "msPerDay = 86400000"

definition Day :: "int \<Rightarrow> int" where
  "Day t = t div msPerDay"

definition DaysInYear :: "int \<Rightarrow> int" where
  "DaysInYear y =
     (if y mod 4 \<noteq> 0 then 365
      else if y mod 100 \<noteq> 0 then 366
      else if y mod 400 \<noteq> 0 then 365
      else 366)"

definition DayFromYear :: "int \<Rightarrow> int" where
  "DayFromYear y = 365 * (y - 1970) + (y - 1969) div 4 - (y - 1901) div 100 + (y - 1601) div 400"

text \<open>
  \<open>YearFromTime t\<close> is the largest year whose first day is not after \<open>t\<close>. It is computed
  from the estimate \<open>1970 + floor(400 d / 146097)\<close>, which is off by at most one.
\<close>

definition YearFromTime :: "int \<Rightarrow> int" where
  "YearFromTime t =
     (let d = Day t; y0 = 1970 + (400 * d) div 146097
      in if DayFromYear (y0 + 1) \<le> d then y0 + 1
         else if DayFromYear y0 \<le> d then y0
         else y0 - 1)"

definition InLeapYear :: "int \<Rightarrow> int" where
  "InLeapYear t = (if DaysInYear (YearFromTime t) = 366 then 1 else 0)"

definition DayWithinYear :: "int \<Rightarrow> int" where
  "DayWithinYear t = Day t - DayFromYear (YearFromTime t)"

definition MonthFromTime :: "int \<Rightarrow> int" where
  "MonthFromTime t =
     (let d = DayWithinYear t; l = InLeapYear t
      in if d < 31 then 0
         else if d < 59 + l then 1
         else if d < 90 + l then 2
         else if d < 120 + l then 3
         else if d < 151 + l then 4
         else if d < 181 + l then 5
         else if d < 212 + l then 6
         else if d < 243 + l then 7
         else if d < 273 + l then 8
         else if d < 304 + l then 9
         else if d < 334 + l then 10
         else 11)"

definition DateFromTime :: "int \<Rightarrow> int" where
  "DateFromTime t =
     (let d = DayWithinYear t; l = InLeapYear t; m = MonthFromTime t
      in if m = 0 then d + 1
         else if m = 1 then d - 30
         else if m = 2 then d - 58 - l
         else if m = 3 then d - 89 - l
         else if m = 4 then d - 119 - l
         else if m = 5 then d - 150 - l
         else if m = 6 then d - 180 - l
         else if m = 7 then d - 211 - l
         else if m = 8 then d - 242 - l
         else if m = 9 then d - 272 - l
         else if m = 10 then d - 303 - l
         else d - 333 - l)"

text \<open>
  \<open>MakeDay year month date\<close>: the day number of the given calendar day. A month outside
  0..11 carries into the year, and a day of the month beyond the month's length runs on
  into the next month (day 30 of February is the 1st or 2nd of March).
\<close>

definition DaysBeforeMonth :: "int \<Rightarrow> int \<Rightarrow> int" where
  "DaysBeforeMonth mn l =
     (if mn = 0 then 0
      else if mn = 1 then 31
      else if mn = 2 then 59 + l
      else if mn = 3 then 90 + l
      else if mn = 4 then 120 + l
      else if mn = 5 then 151 + l
      else if mn = 6 then 181 + l
      else if mn = 7 then 212 + l
      else if mn = 8 then 243 + l
      else if mn = 9 then 273 + l
      else if mn = 10 then 304 + l
      else 334 + l)"

definition MakeDay :: "int \<Rightarrow> int \<Rightarrow> int \<Rightarrow> int" where
  "MakeDay year month dt =
     (let ym = year + month div 12; mn = month mod 12;
          l = (if DaysInYear ym = 366 then 1 else 0)
      in DayFromYear ym + DaysBeforeMonth mn l + dt - 1)"

definition MakeDate :: "int \<Rightarrow> int \<Rightarrow> int" where
  "MakeDate day time = day * msPerDay + time"

definition TimeClip :: "int \<Rightarrow> int option" where
  "TimeClip t = (if \<bar>t\<bar> > 8640000000000000 then None else Some t)"

text \<open>
  What the host decides: the offset of local time from UTC in milliseconds (\<open>LocalTZA t True\<close>
  at a UTC time, \<open>LocalTZA t False\<close> at a local time), and the parser of date strings,
  which returns a time value or \<open>NaN\<close>.
\<close>

record host =
  LocalTZA :: "int \<Rightarrow> bool \<Rightarrow> int"
  Date_parse :: "string \<Rightarrow> int option"

definition LocalTime :: "host \<Rightarrow> int \<Rightarrow> int" where
  "LocalTime h t = t + LocalTZA h t True"

definition UTC :: "host \<Rightarrow> int \<Rightarrow> int" where
  "UTC h t = t - LocalTZA h t False"

definition getFullYear :: "host \<Rightarrow> int \<Rightarrow> int" where
  "getFullYear h t = YearFromTime (LocalTime h t)"

definition getMonth :: "host \<Rightarrow> int \<Rightarrow> int" where
  "getMonth h t = MonthFromTime (LocalTime h t)"

definition getDate :: "host \<Rightarrow> int \<Rightarrow> int" where
  "getDate h t = DateFromTime (LocalTime h t)"

text \<open>
  \<open>new Date(year, month, date)\<close>: local midnight of that calendar day; a year from 0 to 99
  means 1900 + year. \<open>new Date(string)\<close>: the parser's time value.
\<close>

definition new_Date_ymd :: "host \<Rightarrow> int \<Rightarrow> int \<Rightarrow> int \<Rightarrow> int option" where
  "new_Date_ymd h year month dt =
     (let yr = (if 0 \<le> year \<and> year \<le> 99 then 1900 + year else year)
      in TimeClip (UTC h (MakeDate (MakeDay yr month dt) 0)))"

definition new_Date_string :: "host \<Rightarrow> string \<Rightarrow> int option" where
  "new_Date_string h s =
     (case Date_parse h s of
        None \<Rightarrow> None
      | Some tv \<Rightarrow> TimeClip tv)"

text \<open>\<open>a >= b\<close> on two dates compares the time values; with a \<open>NaN\<close> it is false.\<close>

definition date_ge :: "int option \<Rightarrow> int option \<Rightarrow> bool" where
  "date_ge a b =
     (case a of
        None \<Rightarrow> False
      | Some x \<Rightarrow> (case b of None \<Rightarrow> False | Some y \<Rightarrow> y \<le> x))"

subsection \<open>The date-only form of the parser\<close>

text \<open>
  The calendar supplies dates as \<open>YYYY-MM-DD\<close>. The language definition reads this form as
  midnight UTC of that day. \<open>parse_date_only\<close> is a parser that knows this form only
  (any other string is \<open>NaN\<close>); it instantiates \<open>Date_parse\<close> in the examples.
\<close>

definition digit_of :: "char \<Rightarrow> int option" where
  "digit_of c =
     (let code = (of_char c :: int)
      in if 48 \<le> code \<and> code \<le> 57 then Some (code - 48) else None)"

fun digits_value :: "int \<Rightarrow> string \<Rightarrow> int option" where
  "digits_value acc [] = Some acc"
| "digits_value acc (c # cs) =
     (case digit_of c of
        None \<Rightarrow> None
      | Some d \<Rightarrow> digits_value (10 * acc + d) cs)"

definition parse_date_only :: "string \<Rightarrow> int option" where
  "parse_date_only s =
     (if length s = 10 \<and> s ! 4 = CHR ''-'' \<and> s ! 7 = CHR ''-'' then
        (case digits_value 0 (take 4 s) of
           None \<Rightarrow> None
         | Some y \<Rightarrow>
            (case digits_value 0 (take 2 (drop 5 s)) of
               None \<Rightarrow> None
             | Some m \<Rightarrow>
                (case digits_value 0 (drop 8 s) of
                   None \<Rightarrow> None
                 | Some d \<Rightarrow>
                    if 1 \<le> m \<and> m \<le> 12 \<and> 1 \<le> d \<and> d \<le> 31
                    then Some (MakeDate (MakeDay y (m - 1) d) 0)
                    else None)))
      else None)"

text \<open>A host whose local time is a fixed number of milliseconds ahead of UTC.\<close>

definition fixed_offset_host :: "int \<Rightarrow> host" where
  "fixed_offset_host off = \<lparr>LocalTZA = (\<lambda>t isUTC. off), Date_parse = parse_date_only\<rparr>"

subsection \<open>The filter\<close>

text \<open>One day of the calendar: its date string and the activity numbers, which are not read.\<close>

record Activity =
  date :: string
  count :: int
  level :: int

text \<open>The \<open>while\<close> loop on \<open>cutoffMonth\<close> and \<open>cutoffYear\<close>.\<close>

function adjust_year :: "int \<Rightarrow> int \<Rightarrow> int \<times> int" where
  "adjust_year cutoffMonth cutoffYear =
     (if cutoffMonth < 0 then adjust_year (cutoffMonth + 12) (cutoffYear - 1)
      else (cutoffMonth, cutoffYear))"
  by pat_completeness auto
termination
  by (relation "measure (\<lambda>(cutoffMonth, cutoffYear). nat (- cutoffMonth))") auto

declare adjust_year.simps [simp del]

definition cutoffDate :: "host \<Rightarrow> int \<Rightarrow> int \<Rightarrow> int option" where
  "cutoffDate h today months =
     (let (cutoffMonth, cutoffYear) = adjust_year (getMonth h today - months) (getFullYear h today)
      in new_Date_ymd h cutoffYear cutoffMonth (getDate h today))"

text \<open>
  \<open>today\<close> is the value of the clock read by \<open>new Date()\<close>; \<open>months\<close> is \<open>None\<close> when the
  caller passes no second argument, and the default 11 applies.
\<close>

definition filterLastNMonths :: "host \<Rightarrow> int \<Rightarrow> Activity list \<Rightarrow> int option \<Rightarrow> Activity list" where
  "filterLastNMonths h today contributions months_arg =
     (let months = (case months_arg of None \<Rightarrow> 11 | Some m \<Rightarrow> m)
      in filter (\<lambda>day. date_ge (new_Date_string h (date day)) (cutoffDate h today months))
           contributions)"

section \<open>Properties of the tag filter\<close>

subsection \<open>Insertion order of a set is first-appearance order\<close>

lemma Set_add_foldl:
  "foldl Set_add acc xs = acc @ first_seen (filter (\<lambda>x. x \<notin> set acc) xs)"
proof (induction xs arbitrary: acc)
  case Nil
  then show ?case by simp
next
  case (Cons x xs)
  show ?case
  proof (cases "x \<in> set acc")
    case True
    then show ?thesis using Cons.IH [of acc] by (simp add: Set_add_def)
  next
    case False
    have "filter (\<lambda>y. y \<notin> set (acc @ [x])) xs =
          filter (\<lambda>y. y \<noteq> x) (filter (\<lambda>y. y \<notin> set acc) xs)"
      by (induction xs) auto
    then show ?thesis using False Cons.IH [of "acc @ [x]"] by (simp add: Set_add_def)
  qed
qed

lemma new_Set_first_seen: "new_Set xs = first_seen xs"
  by (simp add: new_Set_def Set_add_foldl)

lemma first_seen_filter: "filter P (first_seen xs) = first_seen (filter P xs)"
proof (induction xs rule: first_seen.induct)
  case 1
  then show ?case by simp
next
  case (2 x xs)
  have swap: "filter P (filter (\<lambda>y. y \<noteq> x) xs) = filter (\<lambda>y. y \<noteq> x) (filter P xs)"
    by (induction xs) auto
  show ?case
  proof (cases "P x")
    case True
    with 2 swap show ?thesis by simp
  next
    case False
    then have "filter (\<lambda>y. y \<noteq> x) (filter P xs) = filter P xs"
      by (induction xs) auto
    with 2 swap False show ?thesis by simp
  qed
qed

lemma set_first_seen: "set (first_seen xs) = set xs"
  by (induction xs rule: first_seen.induct) auto

lemma distinct_first_seen: "distinct (first_seen xs)"
  by (induction xs rule: first_seen.induct) (auto simp: set_first_seen)

lemma first_seen_map_Some: "first_seen (map Some xs) = map Some (first_seen xs)"
  by (induction xs rule: first_seen.induct) (auto simp: filter_map comp_def)

subsection \<open>The derived tag list in closed form\<close>

text \<open>
  The truthy elements of the flattened array are the non-empty tags of the records' lists,
  in the order of the records and of each list; a record without a list adds nothing.
\<close>

lemma Boolean_flatMap_tags:
  "filter Boolean (flatMap_tags R) = map Some (filter (\<lambda>t. t \<noteq> []) (concat (map tag_list R)))"
proof (induction R)
  case Nil
  then show ?case by simp
next
  case (Cons photo R)
  have "filter Boolean (map Some ts) = map Some (filter (\<lambda>t. t \<noteq> []) ts)" for ts
    by (induction ts) auto
  with Cons show ?case
    by (simp add: tag_list_def split: option.splits)
qed

lemma allTags_closed_form:
  "allTags R = Some ''All'' # map Some (first_seen (filter (\<lambda>t. t \<noteq> []) (concat (map tag_list R))))"
  by (simp add: allTags_def uniqueTags_def Array_from_def new_Set_first_seen
      first_seen_filter Boolean_flatMap_tags first_seen_map_Some)

lemma set_nonempty_tags:
  "set (filter (\<lambda>t. t \<noteq> []) (concat (map tag_list R))) =
   {t. t \<noteq> [] \<and> (\<exists>photo \<in> set R. has_tag t photo)}"
  by (auto simp: has_tag_def)

subsection \<open>The filter in closed form\<close>

lemma Array_filter_no_throw:
  "list_all (\<lambda>x. \<exists>b. cb x = Inr b) xs \<Longrightarrow>
   Array_filter cb xs = Inr (filter (\<lambda>x. cb x = Inr True) xs)"
  by (induction xs) auto

lemma Array_filter_throw:
  "\<not> list_all (\<lambda>x. \<exists>b. cb x = Inr b) xs \<Longrightarrow> \<exists>e. Array_filter cb xs = Inl e"
  by (induction xs) (auto split: sum.splits)

lemma filteredPhotos_closed_form:
  assumes "T \<noteq> ''All''"
  shows "filteredPhotos R T = (if has_tags_list R then Inr (filter (has_tag T) R) else Inl TypeError)"
proof (cases "has_tags_list R")
  case True
  then have ok: "list_all (\<lambda>photo. \<exists>b. tags_includes photo T = Inr b) R"
    by (auto simp: has_tags_list_def tags_includes_def list_all_iff)
  have "filter (\<lambda>photo. tags_includes photo T = Inr True) R = filter (has_tag T) R"
    using True
    by (intro filter_cong refl)
      (auto simp: has_tags_list_def list_all_iff tags_includes_def has_tag_def tag_list_def)
  with Array_filter_no_throw [OF ok] assms True show ?thesis
    by (simp add: filteredPhotos_def)
next
  case False
  then obtain photo where "photo \<in> set R" and "tags photo = None"
    by (auto simp: has_tags_list_def list_all_iff)
  then have "photo \<in> set R" and "\<not> (\<exists>b. tags_includes photo T = Inr b)"
    by (simp_all add: tags_includes_def)
  then have "\<not> list_all (\<lambda>photo. \<exists>b. tags_includes photo T = Inr b) R"
    unfolding list_all_iff by blast
  from Array_filter_throw [OF this] obtain e
    where "Array_filter (\<lambda>photo. tags_includes photo T) R = Inl e" ..
  moreover have "e = TypeError" by (cases e) simp
  ultimately show ?thesis using assms False by (simp add: filteredPhotos_def)
qed

lemma filteredPhotos_with_tags_lists:
  assumes "T \<noteq> ''All''" and "has_tags_list R"
  shows "filteredPhotos R T = Inr (filter (has_tag T) R)
       \<and> subseq (filter (has_tag T) R) R
       \<and> set (filter (has_tag T) R) = {photo \<in> set R. T \<in> set (tag_list photo)}"
  using assms by (simp add: filteredPhotos_closed_form has_tag_def)

lemma universe_tag_selects_with_tags_lists:
  assumes "T \<noteq> ''All''" and "has_tags_list R" and "Some T \<in> set (allTags R)"
  shows "\<exists>out. filteredPhotos R T = Inr out \<and> out \<noteq> []"
proof -
  from assms(1,3) have "T \<in> set (first_seen (filter (\<lambda>t. t \<noteq> []) (concat (map tag_list R))))"
    by (auto simp: allTags_closed_form)
  then have "T \<in> {t. t \<noteq> [] \<and> (\<exists>photo \<in> set R. has_tag t photo)}"
    by (simp only: set_first_seen set_nonempty_tags)
  then obtain photo where "photo \<in> set R" and "has_tag T photo" by blast
  then have "filter (has_tag T) R \<noteq> []"
    by (auto simp: filter_empty_conv)
  with assms(1,2) show ?thesis
    by (simp add: filteredPhotos_closed_form)
qed

subsection \<open>The claims\<close>

text \<open>
  C1 (the code at the failing input). For a collection in which every record carries a tags
  list, the filter with a tag \<open>T\<close> other than \<open>"All"\<close> returns exactly the records whose
  list contains \<open>T\<close>, in order (\<open>filteredPhotos_with_tags_lists\<close>). A record without a
  \<open>tags\<close> property has no tag, so the records whose tags contain \<open>"b"\<close> are the first and
  the third of the collection below; the code throws a \<open>TypeError\<close> there instead. With
  an empty list in place of the missing one it returns those two records.
\<close>

theorem filter_by_tag_missing_tags_TypeError:
  "filter (has_tag ''b'')
     [\<lparr>tags = Some [''a'', ''b''], payload = (1::nat)\<rparr>, \<lparr>tags = None, payload = 2\<rparr>,
      \<lparr>tags = Some [''b''], payload = 3\<rparr>]
     = [\<lparr>tags = Some [''a'', ''b''], payload = 1\<rparr>, \<lparr>tags = Some [''b''], payload = 3\<rparr>]
   \<and> filteredPhotos
       [\<lparr>tags = Some [''a'', ''b''], payload = (1::nat)\<rparr>, \<lparr>tags = None, payload = 2\<rparr>,
        \<lparr>tags = Some [''b''], payload = 3\<rparr>] ''b''
     = Inl TypeError
   \<and> filteredPhotos
       [\<lparr>tags = Some [''a'', ''b''], payload = (1::nat)\<rparr>, \<lparr>tags = Some [], payload = 2\<rparr>,
        \<lparr>tags = Some [''b''], payload = 3\<rparr>] ''b''
     = Inr [\<lparr>tags = Some [''a'', ''b''], payload = 1\<rparr>, \<lparr>tags = Some [''b''], payload = 3\<rparr>]"
  by (simp add: has_tag_def tag_list_def filteredPhotos_def tags_includes_def)

text \<open>
  C2. Selecting the sentinel \<open>"All"\<close> returns the input collection itself, whatever the
  records are: same records, same order, no error.
\<close>

theorem filteredPhotos_All_identity:
  "filteredPhotos R ''All'' = Inr R"
  by (simp add: filteredPhotos_def)

text \<open>
  C3 (the code at the failing input). A record without a \<open>tags\<close> property does not stop the
  derivation of the tag list: the \<open>undefined\<close> it contributes is dropped by
  \<open>filter(Boolean)\<close>. The filter, however, evaluates \<open>photo.tags.includes\<close> on it and throws
  a \<open>TypeError\<close> for every selected tag other than \<open>"All"\<close>, instead of leaving the record out.
\<close>

theorem missing_tags_TypeError:
  "allTags [\<lparr>tags = Some [''nature''], payload = (1::nat)\<rparr>, \<lparr>tags = None, payload = 2\<rparr>]
     = [Some ''All'', Some ''nature'']
   \<and> filteredPhotos [\<lparr>tags = Some [''nature''], payload = (1::nat)\<rparr>, \<lparr>tags = None, payload = 2\<rparr>] ''nature''
     = Inl TypeError
   \<and> filteredPhotos [\<lparr>tags = None, payload = (2::nat)\<rparr>] ''nature'' = Inl TypeError"
  by (simp add: allTags_def uniqueTags_def Array_from_def new_Set_def Set_add_def
      filteredPhotos_def tags_includes_def)

text \<open>
  C4. For every collection \<open>R\<close>, also one with records lacking a tags list, the derived tag
  list starts with \<open>"All"\<close>, followed by the distinct non-empty tags of the records, each
  once, in order of first appearance (records left to right, each list left to right); for
  the empty collection it is \<open>["All"]\<close>. Under the invariant of the data model that no
  record carries the literal tag \<open>"All"\<close>, the list has no duplicate entry.
\<close>

theorem allTags_universe:
  "allTags R = Some ''All'' # map Some (first_seen (filter (\<lambda>t. t \<noteq> []) (concat (map tag_list R))))
   \<and> allTags ([] :: 'p PhotoMetadata list) = [Some ''All'']
   \<and> hd (allTags R) = Some ''All''
   \<and> distinct (tl (allTags R))
   \<and> set (tl (allTags R)) = Some ` {t. t \<noteq> [] \<and> (\<exists>photo \<in> set R. has_tag t photo)}
   \<and> (\<not> list_ex (has_tag ''All'') R \<longrightarrow> distinct (allTags R))"
proof -
  let ?ts = "filter (\<lambda>t. t \<noteq> []) (concat (map tag_list R))"
  have cf: "allTags R = Some ''All'' # map Some (first_seen ?ts)"
    by (rule allTags_closed_form)
  have e: "allTags ([] :: 'p PhotoMetadata list) = [Some ''All'']"
    by (simp add: allTags_closed_form)
  have h: "hd (allTags R) = Some ''All''"
    by (simp add: cf)
  have d: "distinct (tl (allTags R))"
    by (simp add: cf distinct_map distinct_first_seen)
  have s: "set (tl (allTags R)) = Some ` {t. t \<noteq> [] \<and> (\<exists>photo \<in> set R. has_tag t photo)}"
    by (simp only: cf list.sel set_map set_first_seen set_nonempty_tags)
  have "(Some ''All'' \<in> set (tl (allTags R))) = list_ex (has_tag ''All'') R"
    unfolding s by (auto simp: list_ex_iff)
  then have a: "\<not> list_ex (has_tag ''All'') R \<longrightarrow> distinct (allTags R)"
    using d by (simp add: cf)
  from cf e h d s a show ?thesis by blast
qed

theorem allTags_universe_witness:
  "\<not> list_ex (has_tag ''All'')
        [\<lparr>tags = Some [''a'', ''b''], payload = ()\<rparr>, \<lparr>tags = Some [''b'', '''', ''a'', ''c''], payload = ()\<rparr>,
         \<lparr>tags = None, payload = ()\<rparr>, \<lparr>tags = Some [], payload = ()\<rparr>]
   \<and> allTags [\<lparr>tags = Some [''a'', ''b''], payload = ()\<rparr>, \<lparr>tags = Some [''b'', '''', ''a'', ''c''], payload = ()\<rparr>,
            \<lparr>tags = None, payload = ()\<rparr>, \<lparr>tags = Some [], payload = ()\<rparr>]
     = [Some ''All'', Some ''a'', Some ''b'', Some ''c'']
   \<and> distinct (allTags [\<lparr>tags = Some [''a'', ''b''], payload = ()\<rparr>,
        \<lparr>tags = Some [''b'', '''', ''a'', ''c''], payload = ()\<rparr>, \<lparr>tags = None, payload = ()\<rparr>,
        \<lparr>tags = Some [], payload = ()\<rparr>])"
proof -
  let ?R = "[\<lparr>tags = Some [''a'', ''b''], payload = ()\<rparr>,
        \<lparr>tags = Some [''b'', '''', ''a'', ''c''], payload = ()\<rparr>, \<lparr>tags = None, payload = ()\<rparr>,
        \<lparr>tags = Some [], payload = ()\<rparr>]"
  note th = allTags_universe [of ?R]
  have a: "allTags ?R = [Some ''All'', Some ''a'', Some ''b'', Some ''c'']"
    using th [THEN conjunct1] by (simp add: tag_list_def)
  have n: "\<not> list_ex (has_tag ''All'') ?R"
    by (simp add: has_tag_def tag_list_def)
  then have b: "distinct (allTags ?R)"
    using th [THEN conjunct2, THEN conjunct2, THEN conjunct2, THEN conjunct2, THEN conjunct2] by blast
  from n a b show ?thesis by blast
qed

text \<open>
  C10 (the code at the failing input). When every record carries a tags list, an entry of
  the derived tag list other than \<open>"All"\<close> selects at least one record
  (\<open>universe_tag_selects_with_tags_lists\<close>). With a record that has no \<open>tags\<close> property
  in the collection, \<open>"a"\<close> is still offered by the tag list, but selecting it throws a
  \<open>TypeError\<close> and no record is returned; with an empty list in place of the missing one
  the record tagged \<open>"a"\<close> is returned.
\<close>

theorem universe_tag_missing_tags_TypeError:
  "''a'' \<noteq> ''All''
   \<and> allTags [\<lparr>tags = Some [''a''], payload = (1::nat)\<rparr>, \<lparr>tags = None, payload = 2\<rparr>]
       = [Some ''All'', Some ''a'']
   \<and> Some ''a'' \<in> set (allTags [\<lparr>tags = Some [''a''], payload = (1::nat)\<rparr>, \<lparr>tags = None, payload = 2\<rparr>])
   \<and> filteredPhotos [\<lparr>tags = Some [''a''], payload = (1::nat)\<rparr>, \<lparr>tags = None, payload = 2\<rparr>] ''a''
       = Inl TypeError
   \<and> filteredPhotos [\<lparr>tags = Some [''a''], payload = (1::nat)\<rparr>, \<lparr>tags = Some [], payload = 2\<rparr>] ''a''
       = Inr [\<lparr>tags = Some [''a''], payload = 1\<rparr>]"
  by (simp add: allTags_def uniqueTags_def Array_from_def new_Set_def Set_add_def
      filteredPhotos_def tags_includes_def)

subsection \<open>The store is left as it was\<close>

lemma untouched_iff:
  "untouched H H' =
     (next_free H \<le> next_free H'
      \<and> (\<forall>a < next_free H. photo_obj H' a = photo_obj H a
            \<and> ref_array H' a = ref_array H a \<and> val_array H' a = val_array H a))"
  by (auto simp: untouched_def list_all_iff)

lemma untouched_refl: "untouched H H"
  by (simp add: untouched_iff)

lemma untouched_trans: "untouched H1 H2 \<Longrightarrow> untouched H2 H3 \<Longrightarrow> untouched H1 H3"
  by (auto simp: untouched_iff)

lemma alloc_vals_props:
  assumes "alloc_vals H xs = (H', a)"
  shows "untouched H H'" and "a = next_free H" and "val_array H' a = xs"
    and "next_free H' = Suc (next_free H)"
  using assms by (auto simp: alloc_vals_def untouched_iff)

lemma alloc_refs_props:
  assumes "alloc_refs H rs = (H', a)"
  shows "untouched H H'" and "a = next_free H" and "ref_array H' a = rs"
    and "photo_obj H' = photo_obj H"
  using assms by (auto simp: alloc_refs_def untouched_iff)

lemma untouched_val: "untouched H H' \<Longrightarrow> a < next_free H \<Longrightarrow> val_array H' a = val_array H a"
  by (simp add: untouched_iff)

lemma untouched_photos_at:
  assumes "untouched H H'" and "arr < next_free H" and "list_all (\<lambda>r. r < next_free H) (ref_array H arr)"
  shows "photos_at H' arr = photos_at H arr"
  using assms by (auto simp: untouched_iff photos_at_def list_all_iff)

lemma uniqueTags_h_props:
  assumes "uniqueTags_h H photos = (H', u)"
  shows "untouched H H'" and "val_array H' u = uniqueTags (photos_at H photos)"
    and "u < next_free H'"
proof -
  obtain H1 flat where 1: "flatMap_tags_h H photos = (H1, flat)" by (cases "flatMap_tags_h H photos")
  obtain H2 s where 2: "new_Set_h H1 flat = (H2, s)" by (cases "new_Set_h H1 flat")
  from assms 1 2 have 3: "Array_from_h H2 s = (H', u)"
    by (simp add: uniqueTags_h_def)
  note p1 = alloc_vals_props [OF 1 [unfolded flatMap_tags_h_def]]
  note p2 = alloc_vals_props [OF 2 [unfolded new_Set_h_def]]
  note p3 = alloc_vals_props [OF 3 [unfolded Array_from_h_def]]
  from p1(1) p2(1) p3(1) show "untouched H H'"
    by (blast intro: untouched_trans)
  have "val_array H2 s = new_Set (flatMap_tags (photos_at H photos))"
    using p1 p2 by (simp add: photos_at_def)
  with p3 show "val_array H' u = uniqueTags (photos_at H photos)"
    by (simp add: uniqueTags_def)
  from p3 show "u < next_free H'" by simp
qed

lemma allTags_h_props:
  assumes "allTags_h H photos = (H', r)"
  shows "untouched H H'" and "val_array H' r = allTags (photos_at H photos)"
    and "next_free H \<le> r" and "r < next_free H'"
proof -
  obtain H1 u where 1: "uniqueTags_h H photos = (H1, u)" by (cases "uniqueTags_h H photos")
  obtain H2 c where 2: "Array_from_h H1 u = (H2, c)" by (cases "Array_from_h H1 u")
  obtain H3 t where 3: "filter_Boolean_h H2 c = (H3, t)" by (cases "filter_Boolean_h H2 c")
  from assms 1 2 3 have 4: "All_and_spread_h H3 t = (H', r)"
    by (simp add: allTags_h_def)
  note p1 = uniqueTags_h_props [OF 1]
  note p2 = alloc_vals_props [OF 2 [unfolded Array_from_h_def]]
  note p3 = alloc_vals_props [OF 3 [unfolded filter_Boolean_h_def]]
  note p4 = alloc_vals_props [OF 4 [unfolded All_and_spread_h_def]]
  from p1(1) p2(1) p3(1) p4(1) show u: "untouched H H'"
    by (blast intro: untouched_trans)
  have "val_array H3 t = filter Boolean (Array_from (uniqueTags (photos_at H photos)))"
    using p1 p2 p3 by simp
  with p4 show "val_array H' r = allTags (photos_at H photos)"
    by (simp add: allTags_def)
  have "next_free H \<le> next_free H3"
    using p1(1) p2(1) p3(1) by (auto simp: untouched_iff)
  with p4 show "next_free H \<le> r" and "r < next_free H'" by simp_all
qed

lemma Array_filter_map:
  "Array_filter cb (map f rs) = map_sum id (map f) (Array_filter (\<lambda>r. cb (f r)) rs)"
  by (induction rs) (auto split: sum.splits)

lemma filteredPhotos_h_props:
  assumes "filteredPhotos_h H photos T = (H', res)"
  shows "untouched H H'"
    and "photo_obj H' = photo_obj H"
    and "filteredPhotos (photos_at H photos) T = map_sum id (photos_at H') res"
    and "T = ''All'' \<Longrightarrow> res = Inr photos \<and> H' = H"
    and "T \<noteq> ''All'' \<Longrightarrow> res = Inr a \<Longrightarrow> a = next_free H \<and> a < next_free H'"
proof -
  show "T = ''All'' \<Longrightarrow> res = Inr photos \<and> H' = H"
    using assms by (auto simp: filteredPhotos_h_def)
  show "untouched H H'"
    using assms
    by (auto simp: filteredPhotos_h_def untouched_refl alloc_refs_def untouched_iff
        split: if_splits sum.splits)
  show "photo_obj H' = photo_obj H"
    using assms
    by (auto simp: filteredPhotos_h_def alloc_refs_def split: if_splits sum.splits)
  show "T \<noteq> ''All'' \<Longrightarrow> res = Inr a \<Longrightarrow> a = next_free H \<and> a < next_free H'"
    using assms
    by (auto simp: filteredPhotos_h_def alloc_refs_def split: if_splits sum.splits)
  show "filteredPhotos (photos_at H photos) T = map_sum id (photos_at H') res"
    using assms
    by (auto simp: filteredPhotos_h_def filteredPhotos_def photos_at_def Array_filter_map
        alloc_refs_def split: if_splits sum.splits)
qed

text \<open>
  C9. For every store in which the \<open>photos\<close> array and the photo objects it refers to are
  allocated, and every selected tag: after deriving the tag list, after filtering, and after
  both in the order of the component, every object that existed before is unchanged (the
  \<open>photos\<close> array with its elements, every photo object with its tags and all its other
  properties), so \<open>photos\<close> denotes the same collection. The tag list is a newly allocated
  array; the filtered result is \<open>photos\<close> itself for \<open>"All"\<close> and otherwise a newly
  allocated array of references to the same photo objects. Both hold the values that the
  functions on collections compute.
\<close>

theorem tag_filter_leaves_input_untouched:
  assumes "photos < next_free H"
    and "list_all (\<lambda>r. r < next_free H) (ref_array H photos)"
    and "allTags_h H photos = (H1, tagsRef)"
    and "filteredPhotos_h H photos T = (H2, res)"
    and "filteredPhotos_h H1 photos T = (H3, res3)"
  shows "untouched H H1 \<and> untouched H H2 \<and> untouched H H3
       \<and> photos_at H1 photos = photos_at H photos
       \<and> photos_at H2 photos = photos_at H photos
       \<and> photos_at H3 photos = photos_at H photos
       \<and> next_free H \<le> tagsRef
       \<and> val_array H1 tagsRef = allTags (photos_at H photos)
       \<and> val_array H3 tagsRef = allTags (photos_at H photos)
       \<and> map_sum id (photos_at H2) res = filteredPhotos (photos_at H photos) T
       \<and> map_sum id (photos_at H3) res3 = filteredPhotos (photos_at H photos) T
       \<and> (T = ''All'' \<longrightarrow> res = Inr photos \<and> H2 = H)
       \<and> (T \<noteq> ''All'' \<longrightarrow> (\<forall>a. res = Inr a \<longrightarrow> a = next_free H \<and> a < next_free H2))"
proof -
  note at = allTags_h_props [OF assms(3)]
  note f2 = filteredPhotos_h_props [OF assms(4)]
  note f3 = filteredPhotos_h_props [OF assms(5)]
  have u1: "untouched H H1" by (rule at(1))
  have u2: "untouched H H2" by (rule f2(1))
  have u3: "untouched H H3" using at(1) f3(1) by (rule untouched_trans)
  have p1: "photos_at H1 photos = photos_at H photos"
    using u1 assms(1,2) by (rule untouched_photos_at)
  have p2: "photos_at H2 photos = photos_at H photos"
    using u2 assms(1,2) by (rule untouched_photos_at)
  have p3: "photos_at H3 photos = photos_at H photos"
    using u3 assms(1,2) by (rule untouched_photos_at)
  have v3: "val_array H3 tagsRef = allTags (photos_at H photos)"
    using untouched_val [OF f3(1) at(4)] at(2) by simp
  have r2: "map_sum id (photos_at H2) res = filteredPhotos (photos_at H photos) T"
    using f2(3) by simp
  have r3: "map_sum id (photos_at H3) res3 = filteredPhotos (photos_at H photos) T"
    using f3(3) p1 by simp
  have a: "T = ''All'' \<longrightarrow> res = Inr photos \<and> H2 = H"
    using f2(4) by blast
  have b: "T \<noteq> ''All'' \<longrightarrow> (\<forall>a. res = Inr a \<longrightarrow> a = next_free H \<and> a < next_free H2)"
    using f2(5) by blast
  from u1 u2 u3 p1 p2 p3 at(3) at(2) v3 r2 r3 a b show ?thesis
    by blast
qed

theorem tag_filter_leaves_input_untouched_witness:
  "(2::nat) < next_free example_heap
   \<and> list_all (\<lambda>r. r < next_free example_heap) (ref_array example_heap 2)
   \<and> photos_at example_heap 2 = [\<lparr>tags = Some [''a''], payload = 10\<rparr>, \<lparr>tags = Some [''b'', ''a''], payload = 11\<rparr>]
   \<and> snd (allTags_h example_heap 2) = 8
   \<and> val_array (fst (allTags_h example_heap 2)) 8 = [Some ''All'', Some ''a'', Some ''b'']
   \<and> snd (filteredPhotos_h (fst (allTags_h example_heap 2)) 2 ''b'') = Inr 9
   \<and> photos_at (fst (filteredPhotos_h (fst (allTags_h example_heap 2)) 2 ''b'')) 9
        = [\<lparr>tags = Some [''b'', ''a''], payload = 11\<rparr>]
   \<and> photos_at (fst (filteredPhotos_h (fst (allTags_h example_heap 2)) 2 ''b'')) 2
        = [\<lparr>tags = Some [''a''], payload = 10\<rparr>, \<lparr>tags = Some [''b'', ''a''], payload = 11\<rparr>]
   \<and> untouched example_heap (fst (filteredPhotos_h (fst (allTags_h example_heap 2)) 2 ''b''))"
proof -
  let ?H = "example_heap"
  let ?A = "allTags_h ?H 2"
  let ?F2 = "filteredPhotos_h ?H 2 ''b''"
  let ?F3 = "filteredPhotos_h (fst ?A) 2 ''b''"
  have h1: "(2::nat) < next_free ?H" by (simp add: example_heap_def)
  have h2: "list_all (\<lambda>r. r < next_free ?H) (ref_array ?H 2)" by (simp add: example_heap_def)
  have h3: "?A = (fst ?A, snd ?A)" by simp
  have h4: "?F2 = (fst ?F2, snd ?F2)" by simp
  have h5: "?F3 = (fst ?F3, snd ?F3)" by simp
  note th = tag_filter_leaves_input_untouched [OF h1 h2 h3 h4 h5]
  have R: "photos_at ?H 2 = [\<lparr>tags = Some [''a''], payload = 10\<rparr>, \<lparr>tags = Some [''b'', ''a''], payload = 11\<rparr>]"
    by (simp add: photos_at_def example_heap_def)
  have t: "snd ?A = 8"
    by (simp add: allTags_h_def uniqueTags_h_def flatMap_tags_h_def new_Set_h_def Array_from_h_def
        filter_Boolean_h_def All_and_spread_h_def alloc_vals_def example_heap_def Let_def)
  have "allTags (photos_at ?H 2) = [Some ''All'', Some ''a'', Some ''b'']"
    by (simp add: R allTags_closed_form tag_list_def)
  with th t have v: "val_array (fst ?A) 8 = [Some ''All'', Some ''a'', Some ''b'']"
    by simp
  have "filteredPhotos (photos_at ?H 2) ''b'' = Inr [\<lparr>tags = Some [''b'', ''a''], payload = 11\<rparr>]"
    by (simp add: R filteredPhotos_def tags_includes_def)
  with th have m: "map_sum id (photos_at (fst ?F3)) (snd ?F3) = Inr [\<lparr>tags = Some [''b'', ''a''], payload = 11\<rparr>]"
    by simp
  have s: "snd ?F3 = Inr 9"
    by (simp add: filteredPhotos_h_def tags_includes_def alloc_refs_def
        allTags_h_def uniqueTags_h_def flatMap_tags_h_def new_Set_h_def Array_from_h_def
        filter_Boolean_h_def All_and_spread_h_def alloc_vals_def example_heap_def Let_def)
  from m s have o: "photos_at (fst ?F3) 9 = [\<lparr>tags = Some [''b'', ''a''], payload = 11\<rparr>]"
    by simp
  from th R have k: "photos_at (fst ?F3) 2 = [\<lparr>tags = Some [''a''], payload = 10\<rparr>, \<lparr>tags = Some [''b'', ''a''], payload = 11\<rparr>]"
    by simp
  from th have u: "untouched ?H (fst ?F3)" by blast
  from h1 h2 R t v s o k u show ?thesis by blast
qed

section \<open>Properties of the date window\<close>

subsection \<open>Calendar fields and the loop\<close>

text \<open>
  The year computed from the estimate is the year of the day: its first day is not after the
  day and the first day of the next year is. Consecutive years start \<open>DaysInYear\<close> days
  apart, so the day within the year, the month and the day of the month are in range.
\<close>



lemma int_div_lower: "0 < n \<Longrightarrow> n * (a div n) \<le> (a::int)"
  using mult_div_mod_eq [of n a] pos_mod_sign [of n a] by linarith

lemma int_div_upper: "0 < n \<Longrightarrow> (a::int) < n * (a div n) + n"
  using mult_div_mod_eq [of n a] pos_mod_bound [of n a] by linarith

lemma DayFromYear_above:
  fixes d :: int
  defines "q \<equiv> (400 * d) div 146097"
  shows "d < DayFromYear (1970 + q + 2)"
proof -
  define A where "A = (q + 3) div 4"
  define B where "B = (q + 71) div 100"
  define C where "C = (q + 371) div 400"
  have q: "400 * d < 146097 * q + 146097"
    unfolding q_def using int_div_upper [of 146097 "400 * d"] by simp
  have a: "q + 3 < 4 * A + 4" unfolding A_def using int_div_upper [of 4 "q + 3"] by simp
  have b: "100 * B \<le> q + 71" unfolding B_def using int_div_lower [of 100 "q + 71"] by simp
  have c: "q + 371 < 400 * C + 400" unfolding C_def using int_div_upper [of 400 "q + 371"] by simp
  have "1970 + q + 2 - 1969 = q + 3" "1970 + q + 2 - 1901 = q + 71" "1970 + q + 2 - 1601 = q + 371"
    "365 * (1970 + q + 2 - 1970) = 365 * q + 730"
    by simp_all
  then have e: "DayFromYear (1970 + q + 2) = 365 * q + 730 + A - B + C"
    unfolding DayFromYear_def A_def B_def C_def by (simp only:)
  have "d < 365 * q + 730 + A - B + C"
    using q a b c by linarith
  then show ?thesis by (simp only: e)
qed

lemma DayFromYear_below:
  fixes d :: int
  defines "q \<equiv> (400 * d) div 146097"
  shows "DayFromYear (1970 + q - 1) \<le> d"
proof -
  define A where "A = q div 4"
  define B where "B = (q + 68) div 100"
  define C where "C = (q + 368) div 400"
  have q: "146097 * q \<le> 400 * d"
    unfolding q_def using int_div_lower [of 146097 "400 * d"] by simp
  have a: "4 * A \<le> q" unfolding A_def using int_div_lower [of 4 q] by simp
  have b: "q + 68 < 100 * B + 100" unfolding B_def using int_div_upper [of 100 "q + 68"] by simp
  have c: "400 * C \<le> q + 368" unfolding C_def using int_div_lower [of 400 "q + 368"] by simp
  have "1970 + q - 1 - 1969 = q" "1970 + q - 1 - 1901 = q + 68" "1970 + q - 1 - 1601 = q + 368"
    "365 * (1970 + q - 1 - 1970) = 365 * q - 365"
    by simp_all
  then have e: "DayFromYear (1970 + q - 1) = 365 * q - 365 + A - B + C"
    unfolding DayFromYear_def A_def B_def C_def by (simp only:)
  have "365 * q - 365 + A - B + C \<le> d"
    using q a b c by linarith
  then show ?thesis by (simp only: e)
qed

lemma YearFromTime_bounds:
  "DayFromYear (YearFromTime t) \<le> Day t \<and> Day t < DayFromYear (YearFromTime t + 1)"
proof -
  define d where "d = Day t"
  define y0 where "y0 = 1970 + (400 * d) div 146097"
  have up: "d < DayFromYear (y0 + 1 + 1)"
    using DayFromYear_above [of d] by (simp add: y0_def)
  have lo: "DayFromYear (y0 - 1) \<le> d"
    using DayFromYear_below [of d] by (simp add: y0_def)
  have Y: "YearFromTime t = (if DayFromYear (y0 + 1) \<le> d then y0 + 1
         else if DayFromYear y0 \<le> d then y0 else y0 - 1)"
    by (simp add: YearFromTime_def Let_def d_def y0_def)
  show ?thesis
  proof (cases "DayFromYear (y0 + 1) \<le> d")
    case True
    with up show ?thesis unfolding Y d_def [symmetric] by simp
  next
    case False
    note F = this
    show ?thesis
    proof (cases "DayFromYear y0 \<le> d")
      case True
      with F show ?thesis unfolding Y d_def [symmetric] by simp
    next
      case False
      with F lo show ?thesis unfolding Y d_def [symmetric] by simp
    qed
  qed
qed


lemma int_div_step:
  fixes a n :: int
  assumes "0 < n"
  shows "(a + 1) div n = a div n + (if (a + 1) mod n = 0 then 1 else 0)"
proof -
  define q where "q = a div n"
  define r where "r = a mod n"
  have a: "a = n * q + r" by (simp add: q_def r_def)
  have r: "0 \<le> r" "r < n" using assms by (simp_all add: r_def)
  show ?thesis
  proof (cases "r + 1 = n")
    case True
    then have e: "a + 1 = n * (q + 1) + 0" using a by (simp add: algebra_simps)
    from assms have "(a + 1) div n = q + 1" and "(a + 1) mod n = 0"
      using int_div_pos_eq [OF e] int_mod_pos_eq [OF e] by simp_all
    then show ?thesis by (simp add: q_def)
  next
    case False
    with r have s: "0 \<le> r + 1" "r + 1 < n" by simp_all
    have e: "a + 1 = n * q + (r + 1)" using a by simp
    have "(a + 1) div n = q" and "(a + 1) mod n = r + 1"
      using int_div_pos_eq [OF e s] int_mod_pos_eq [OF e s] by simp_all
    with r show ?thesis by (simp add: q_def)
  qed
qed

lemma mod_shift:
  "((y::int) - 1968) mod 4 = y mod 4" "(y - 1900) mod 100 = y mod 100" "(y - 1600) mod 400 = y mod 400"
proof -
  have "(y + 4 * (- 492)) mod 4 = y mod 4" by (rule mod_mult_self2)
  then show "(y - 1968) mod 4 = y mod 4" by simp
  have "(y + 100 * (- 19)) mod 100 = y mod 100" by (rule mod_mult_self2)
  then show "(y - 1900) mod 100 = y mod 100" by simp
  have "(y + 400 * (- 4)) mod 400 = y mod 400" by (rule mod_mult_self2)
  then show "(y - 1600) mod 400 = y mod 400" by simp
qed

lemma mod_chain:
  "(y::int) mod 100 = 0 \<Longrightarrow> y mod 4 = 0" "y mod 400 = 0 \<Longrightarrow> y mod 100 = 0"
proof -
  have "y mod 100 mod 4 = y mod 4" by (rule mod_mod_cancel) simp
  then show "y mod 100 = 0 \<Longrightarrow> y mod 4 = 0" by simp
  have "y mod 400 mod 100 = y mod 100" by (rule mod_mod_cancel) simp
  then show "y mod 400 = 0 \<Longrightarrow> y mod 100 = 0" by simp
qed

lemma DayFromYear_next: "DayFromYear (y + 1) = DayFromYear y + DaysInYear y"
proof -
  have 4: "(y + 1 - 1969) div 4 = (y - 1969) div 4 + (if y mod 4 = 0 then 1 else 0)"
    using int_div_step [of 4 "y - 1969"] mod_shift(1) [of y] by (simp add: algebra_simps)
  have 100: "(y + 1 - 1901) div 100 = (y - 1901) div 100 + (if y mod 100 = 0 then 1 else 0)"
    using int_div_step [of 100 "y - 1901"] mod_shift(2) [of y] by (simp add: algebra_simps)
  have 400: "(y + 1 - 1601) div 400 = (y - 1601) div 400 + (if y mod 400 = 0 then 1 else 0)"
    using int_div_step [of 400 "y - 1601"] mod_shift(3) [of y] by (simp add: algebra_simps)
  have "365 * (y + 1 - 1970) = 365 * (y - 1970) + 365" by simp
  then have s: "DayFromYear (y + 1) = DayFromYear y + (365 + (if y mod 4 = 0 then 1 else 0)
      - (if y mod 100 = 0 then 1 else 0) + (if y mod 400 = 0 then 1 else 0))"
    unfolding DayFromYear_def 4 100 400 by simp
  have "365 + (if y mod 4 = 0 then 1 else 0) - (if y mod 100 = 0 then 1 else 0)
      + (if y mod 400 = 0 then 1 else (0::int)) = DaysInYear y"
    using mod_chain [of y] by (auto simp: DaysInYear_def)
  with s show ?thesis by (simp only:)
qed

lemma DayWithinYear_range:
  "0 \<le> DayWithinYear t \<and> DayWithinYear t < DaysInYear (YearFromTime t)"
  using YearFromTime_bounds [of t] DayFromYear_next [of "YearFromTime t"]
  by (simp add: DayWithinYear_def)

lemma DaysInYear_InLeapYear: "DaysInYear (YearFromTime t) = 365 + InLeapYear t"
  by (simp add: InLeapYear_def DaysInYear_def)

lemma DateFromTime_range: "1 \<le> DateFromTime t \<and> DateFromTime t \<le> 31"
proof -
  define d where "d = DayWithinYear t"
  define l where "l = InLeapYear t"
  have l: "l = 0 \<or> l = 1" by (simp add: l_def InLeapYear_def)
  have d: "0 \<le> d" "d < 365 + l"
    using DayWithinYear_range [of t] by (simp_all add: d_def l_def DaysInYear_InLeapYear)
  have m: "MonthFromTime t = (if d < 31 then 0 else if d < 59 + l then 1 else if d < 90 + l then 2
      else if d < 120 + l then 3 else if d < 151 + l then 4 else if d < 181 + l then 5
      else if d < 212 + l then 6 else if d < 243 + l then 7 else if d < 273 + l then 8
      else if d < 304 + l then 9 else if d < 334 + l then 10 else 11)"
    by (simp add: MonthFromTime_def Let_def d_def l_def)
  consider "d < 31" | "31 \<le> d" "d < 59 + l" | "59 + l \<le> d" "d < 90 + l" | "90 + l \<le> d" "d < 120 + l"
    | "120 + l \<le> d" "d < 151 + l" | "151 + l \<le> d" "d < 181 + l" | "181 + l \<le> d" "d < 212 + l"
    | "212 + l \<le> d" "d < 243 + l" | "243 + l \<le> d" "d < 273 + l" | "273 + l \<le> d" "d < 304 + l"
    | "304 + l \<le> d" "d < 334 + l" | "334 + l \<le> d"
    by linarith
  then show ?thesis
    unfolding DateFromTime_def Let_def m d_def [symmetric] l_def [symmetric]
    using d l by cases auto
qed

lemma MonthFromTime_range: "0 \<le> MonthFromTime t \<and> MonthFromTime t \<le> 11"
  by (simp add: MonthFromTime_def Let_def)

lemma DaysBeforeMonth_DateFromTime:
  "DaysBeforeMonth (MonthFromTime t) (InLeapYear t) + DateFromTime t - 1 = DayWithinYear t"
proof -
  define m where "m = MonthFromTime t"
  have "0 \<le> m" and "m \<le> 11"
    using MonthFromTime_range [of t] by (simp_all add: m_def)
  then have "m = 0 \<or> m = 1 \<or> m = 2 \<or> m = 3 \<or> m = 4 \<or> m = 5 \<or> m = 6 \<or> m = 7
      \<or> m = 8 \<or> m = 9 \<or> m = 10 \<or> m = 11"
    by arith
  then have "DaysBeforeMonth m (InLeapYear t) + DateFromTime t - 1 = DayWithinYear t"
    unfolding DateFromTime_def Let_def m_def [symmetric] DaysBeforeMonth_def
    by (elim disjE) simp_all
  then show ?thesis by (simp add: m_def)
qed

lemma MakeDay_fields: "MakeDay (YearFromTime t) (MonthFromTime t) (DateFromTime t) = Day t"
proof -
  have "MonthFromTime t div 12 = 0" and "MonthFromTime t mod 12 = MonthFromTime t"
    using MonthFromTime_range [of t] by simp_all
  then have "MakeDay (YearFromTime t) (MonthFromTime t) (DateFromTime t) =
      DayFromYear (YearFromTime t) + (DaysBeforeMonth (MonthFromTime t) (InLeapYear t) + DateFromTime t - 1)"
    by (simp add: MakeDay_def InLeapYear_def)
  then show ?thesis
    by (simp only: DaysBeforeMonth_DateFromTime DayWithinYear_def)
qed

lemma local_midnight:
  assumes "\<not> (0 \<le> getFullYear h today \<and> getFullYear h today \<le> 99)"
  shows "new_Date_ymd h (getFullYear h today) (getMonth h today) (getDate h today)
       = TimeClip (UTC h (LocalTime h today - LocalTime h today mod msPerDay))"
proof -
  have "MakeDay (getFullYear h today) (getMonth h today) (getDate h today) = Day (LocalTime h today)"
    by (simp add: getFullYear_def getMonth_def getDate_def MakeDay_fields)
  moreover have "Day x * msPerDay = x - x mod msPerDay" for x
    by (simp add: Day_def minus_mod_eq_div_mult [symmetric])
  moreover have "(if 0 \<le> getFullYear h today \<and> getFullYear h today \<le> 99
      then 1900 + getFullYear h today else getFullYear h today) = getFullYear h today"
    using assms by (simp only: if_False)
  ultimately show ?thesis
    by (simp only: new_Date_ymd_def MakeDate_def Let_def) simp
qed

lemma adjust_year_closed: "m \<le> 11 \<Longrightarrow> adjust_year m y = (m mod 12, y + m div 12)"
proof (induction m y rule: adjust_year.induct)
  case (1 m y)
  show ?case
  proof (cases "m < 0")
    case True
    have "(m + 12) mod 12 = m mod 12" by simp
    moreover have "(m + 12) div 12 = m div 12 + 1" by simp
    ultimately show ?thesis using True 1 by (subst adjust_year.simps) simp
  next
    case False
    with 1 show ?thesis by (subst adjust_year.simps) simp
  qed
qed

lemma adjust_year_nonneg: "0 \<le> m \<Longrightarrow> adjust_year m y = (m, y)"
  by (subst adjust_year.simps) simp

lemma getMonth_range: "0 \<le> getMonth h t \<and> getMonth h t \<le> 11"
  by (simp add: getMonth_def MonthFromTime_range)

lemma cutoffDate_closed:
  assumes "0 \<le> months"
  shows "cutoffDate h today months =
    new_Date_ymd h (getFullYear h today + (getMonth h today - months) div 12)
      ((getMonth h today - months) mod 12) (getDate h today)"
proof -
  have "getMonth h today - months \<le> 11"
    using getMonth_range [of h today] assms by linarith
  then show ?thesis
    by (simp add: cutoffDate_def adjust_year_closed)
qed

lemma cutoffDate_zero:
  "cutoffDate h today 0 = new_Date_ymd h (getFullYear h today) (getMonth h today) (getDate h today)"
  using getMonth_range [of h today] by (simp add: cutoffDate_def adjust_year_nonneg)

lemma filterLastNMonths_Some:
  "filterLastNMonths h today cs (Some months) =
   filter (\<lambda>day. date_ge (new_Date_string h (date day)) (cutoffDate h today months)) cs"
  by (simp add: filterLastNMonths_def)

lemma filterLastNMonths_default:
  "filterLastNMonths h today cs None = filterLastNMonths h today cs (Some 11)"
  by (simp add: filterLastNMonths_def)

lemma new_Date_ymd_value:
  "\<not> (0 \<le> y \<and> y \<le> 99) \<Longrightarrow> new_Date_ymd h y m d = TimeClip (UTC h (MakeDay y m d * msPerDay))"
  by (auto simp add: new_Date_ymd_def MakeDate_def)

lemma MakeDay_2022_11_10: "MakeDay 2022 10 10 * msPerDay = 1668038400000"
  by code_simp

lemma MakeDay_2023_07_15: "MakeDay 2023 6 15 * msPerDay = 1689379200000"
  by code_simp

lemma parse_2023_07:
  "parse_date_only ''2023-07-14'' = Some 1689292800000"
  "parse_date_only ''2023-07-15'' = Some 1689379200000"
  "parse_date_only ''2023-07-16'' = Some 1689465600000"
  by code_simp+

lemma new_Date_string_None:
  "(new_Date_string h s = None) =
   (case Date_parse h s of None \<Rightarrow> True | Some tv \<Rightarrow> 8640000000000000 < \<bar>tv\<bar>)"
  by (simp add: new_Date_string_def TimeClip_def split: option.splits)

subsection \<open>The claims\<close>

text \<open>
  C5. For every list of contributions, every instant \<open>today\<close> of the clock and every window
  \<open>months \<ge> 0\<close>: the loop started at \<open>today.getMonth() - months\<close> and \<open>today.getFullYear()\<close>
  ends with the month brought into 0..11 by borrowing whole years, that is with
  \<open>(getMonth - months) mod 12\<close> and \<open>getFullYear + (getMonth - months) div 12\<close>; the cutoff is
  the date built from that year, that month and \<open>today\<close>'s day of the month; and a
  contribution is kept if and only if its date is at or after the cutoff. For
  \<open>today\<close> = 2024-01-10 and 14 months the loop borrows twice (-14, 2024; -2, 2023; 10, 2022)
  and the cutoff is 2022-11-10 (month 10 counted from 0), midnight local time.
\<close>

theorem filterLastNMonths_window:
  assumes "0 \<le> months"
  shows "cutoffDate h today months =
           new_Date_ymd h (getFullYear h today + (getMonth h today - months) div 12)
             ((getMonth h today - months) mod 12) (getDate h today)
       \<and> 0 \<le> (getMonth h today - months) mod 12 \<and> (getMonth h today - months) mod 12 \<le> 11
       \<and> filterLastNMonths h today contributions (Some months) =
           filter (\<lambda>day. date_ge (new_Date_string h (date day)) (cutoffDate h today months)) contributions
       \<and> (getFullYear h today = 2024 \<and> getMonth h today = 0 \<and> getDate h today = 10 \<and> months = 14
            \<longrightarrow> adjust_year (getMonth h today - months) (getFullYear h today) = adjust_year (- 2) 2023
              \<and> adjust_year (- 2) 2023 = adjust_year 10 2022
              \<and> adjust_year 10 2022 = (10, 2022)
              \<and> cutoffDate h today months = new_Date_ymd h 2022 10 10
              \<and> cutoffDate h today months = TimeClip (UTC h 1668038400000))"
proof -
  have a: "cutoffDate h today months =
           new_Date_ymd h (getFullYear h today + (getMonth h today - months) div 12)
             ((getMonth h today - months) mod 12) (getDate h today)"
    using assms by (rule cutoffDate_closed)
  have b: "0 \<le> (getMonth h today - months) mod 12 \<and> (getMonth h today - months) mod 12 \<le> 11"
    by simp
  have c: "filterLastNMonths h today contributions (Some months) =
           filter (\<lambda>day. date_ge (new_Date_string h (date day)) (cutoffDate h today months)) contributions"
    by (rule filterLastNMonths_Some)
  have d: "adjust_year (getMonth h today - months) (getFullYear h today) = adjust_year (- 2) 2023
              \<and> adjust_year (- 2) 2023 = adjust_year 10 2022
              \<and> adjust_year 10 2022 = (10, 2022)
              \<and> cutoffDate h today months = new_Date_ymd h 2022 10 10
              \<and> cutoffDate h today months = TimeClip (UTC h 1668038400000)"
    if f: "getFullYear h today = 2024 \<and> getMonth h today = 0 \<and> getDate h today = 10 \<and> months = 14"
  proof -
    have 1: "adjust_year (- 14) 2024 = adjust_year (- 2) 2023"
      by (subst adjust_year.simps) simp
    have 2: "adjust_year (- 2) 2023 = adjust_year 10 2022"
      by (subst adjust_year.simps) simp
    have 3: "adjust_year 10 2022 = (10, 2022)"
      by (simp add: adjust_year_nonneg)
    have 4: "cutoffDate h today months = new_Date_ymd h 2022 10 10"
      using f 1 2 3 by (simp add: cutoffDate_def)
    have 5: "new_Date_ymd h 2022 10 10 = TimeClip (UTC h 1668038400000)"
      by (simp add: new_Date_ymd_value MakeDay_2022_11_10)
    from f 1 2 3 4 5 show ?thesis by simp
  qed
  from a b c d show ?thesis by blast
qed

theorem filterLastNMonths_window_witness:
  "(0::int) \<le> 14
   \<and> getFullYear (fixed_offset_host 0) 1704888000000 = 2024
   \<and> getMonth (fixed_offset_host 0) 1704888000000 = 0
   \<and> getDate (fixed_offset_host 0) 1704888000000 = 10
   \<and> cutoffDate (fixed_offset_host 0) 1704888000000 14 = Some 1668038400000
   \<and> filterLastNMonths (fixed_offset_host 0) 1704888000000
        [\<lparr>date = ''2022-11-09'', count = 4, level = 1\<rparr>, \<lparr>date = ''2022-11-10'', count = 0, level = 0\<rparr>,
         \<lparr>date = ''2023-03-01'', count = 9, level = 2\<rparr>] (Some 14)
     = [\<lparr>date = ''2022-11-10'', count = 0, level = 0\<rparr>, \<lparr>date = ''2023-03-01'', count = 9, level = 2\<rparr>]"
proof -
  let ?h = "fixed_offset_host 0"
  let ?cs = "[\<lparr>date = ''2022-11-09'', count = 4, level = 1\<rparr>, \<lparr>date = ''2022-11-10'', count = 0, level = 0\<rparr>,
         \<lparr>date = ''2023-03-01'', count = 9, level = 2\<rparr>]"
  have m: "(0::int) \<le> 14" by simp
  note th = filterLastNMonths_window [OF m, of ?h 1704888000000 ?cs]
  have g: "getFullYear ?h 1704888000000 = 2024 \<and> getMonth ?h 1704888000000 = 0
      \<and> getDate ?h 1704888000000 = 10"
    by code_simp
  with th have "cutoffDate ?h 1704888000000 14 = TimeClip (UTC ?h 1668038400000)"
    by blast
  then have c: "cutoffDate ?h 1704888000000 14 = Some 1668038400000"
    by (simp add: TimeClip_def UTC_def fixed_offset_host_def)
  have p: "new_Date_string ?h ''2022-11-09'' = Some 1667952000000"
    "new_Date_string ?h ''2022-11-10'' = Some 1668038400000"
    "new_Date_string ?h ''2023-03-01'' = Some 1677628800000"
    by code_simp+
  from th have "filterLastNMonths ?h 1704888000000 ?cs (Some 14) =
      filter (\<lambda>day. date_ge (new_Date_string ?h (date day)) (cutoffDate ?h 1704888000000 14)) ?cs"
    by blast
  then have f: "filterLastNMonths ?h 1704888000000 ?cs (Some 14) =
      [\<lparr>date = ''2022-11-10'', count = 0, level = 0\<rparr>, \<lparr>date = ''2023-03-01'', count = 9, level = 2\<rparr>]"
    by (simp add: c p date_ge_def)
  from m g c f show ?thesis by blast
qed

text \<open>
  C6 (as amended). Without a second argument the window is 11 months. When \<open>today\<close> is
  2024-06-15 in local time, the cutoff is 2023-07-15, midnight local time. The dates
  \<open>2023-07-14\<close>, \<open>2023-07-15\<close> and \<open>2023-07-16\<close> are read as midnight UTC, so with local
  time at or ahead of UTC (by less than a day) the first is dropped and the other two are
  kept, and with local time behind UTC the one dated 2023-07-15 is dropped as well.
\<close>

theorem default_window_2024_06_15:
  assumes "getFullYear h today = 2024" and "getMonth h today = 5" and "getDate h today = 15"
    and "list_all (\<lambda>s. Date_parse h s = parse_date_only s) [''2023-07-14'', ''2023-07-15'', ''2023-07-16'']"
    and "\<bar>LocalTZA h 1689379200000 False\<bar> < msPerDay"
  shows "filterLastNMonths h today contributions None = filterLastNMonths h today contributions (Some 11)
     \<and> cutoffDate h today 11 = new_Date_ymd h 2023 6 15
     \<and> cutoffDate h today 11 = Some (1689379200000 - LocalTZA h 1689379200000 False)
     \<and> (0 \<le> LocalTZA h 1689379200000 False \<longrightarrow>
          filterLastNMonths h today
            [\<lparr>date = ''2023-07-14'', count = c1, level = l1\<rparr>, \<lparr>date = ''2023-07-15'', count = c2, level = l2\<rparr>,
             \<lparr>date = ''2023-07-16'', count = c3, level = l3\<rparr>] None
          = [\<lparr>date = ''2023-07-15'', count = c2, level = l2\<rparr>, \<lparr>date = ''2023-07-16'', count = c3, level = l3\<rparr>])
     \<and> (LocalTZA h 1689379200000 False < 0 \<longrightarrow>
          filterLastNMonths h today
            [\<lparr>date = ''2023-07-14'', count = c1, level = l1\<rparr>, \<lparr>date = ''2023-07-15'', count = c2, level = l2\<rparr>,
             \<lparr>date = ''2023-07-16'', count = c3, level = l3\<rparr>] None
          = [\<lparr>date = ''2023-07-16'', count = c3, level = l3\<rparr>])"
proof -
  define off where "off = LocalTZA h 1689379200000 False"
  have r: "- 86400000 < off" "off < 86400000"
    using assms(5) by (simp_all add: off_def msPerDay_def)
  have a: "filterLastNMonths h today contributions None = filterLastNMonths h today contributions (Some 11)"
    by (rule filterLastNMonths_default)
  have "adjust_year (5 - 11) 2024 = (6, 2023)"
    by (simp add: adjust_year_closed)
  then have b: "cutoffDate h today 11 = new_Date_ymd h 2023 6 15"
    using assms(1-3) by (simp add: cutoffDate_def)
  have "new_Date_ymd h 2023 6 15 = TimeClip (1689379200000 - off)"
    by (simp add: new_Date_ymd_value MakeDay_2023_07_15 UTC_def off_def)
  also have "\<dots> = Some (1689379200000 - off)"
    using r by (simp add: TimeClip_def)
  finally have c: "cutoffDate h today 11 = Some (1689379200000 - off)"
    using b by simp
  have p: "new_Date_string h ''2023-07-14'' = Some 1689292800000"
    "new_Date_string h ''2023-07-15'' = Some 1689379200000"
    "new_Date_string h ''2023-07-16'' = Some 1689465600000"
    using assms(4) by (simp_all add: new_Date_string_def parse_2023_07 TimeClip_def)
  have d: "filterLastNMonths h today
            [\<lparr>date = ''2023-07-14'', count = c1, level = l1\<rparr>, \<lparr>date = ''2023-07-15'', count = c2, level = l2\<rparr>,
             \<lparr>date = ''2023-07-16'', count = c3, level = l3\<rparr>] None
          = [\<lparr>date = ''2023-07-15'', count = c2, level = l2\<rparr>, \<lparr>date = ''2023-07-16'', count = c3, level = l3\<rparr>]"
    if "0 \<le> off"
    using that r by (simp add: filterLastNMonths_def c p date_ge_def)
  have e: "filterLastNMonths h today
            [\<lparr>date = ''2023-07-14'', count = c1, level = l1\<rparr>, \<lparr>date = ''2023-07-15'', count = c2, level = l2\<rparr>,
             \<lparr>date = ''2023-07-16'', count = c3, level = l3\<rparr>] None
          = [\<lparr>date = ''2023-07-16'', count = c3, level = l3\<rparr>]"
    if "off < 0"
    using that r by (simp add: filterLastNMonths_def c p date_ge_def)
  from a b c d e show ?thesis
    unfolding off_def by blast
qed

theorem default_window_2024_06_15_witness:
  "getFullYear (fixed_offset_host 7200000) 1718452800000 = 2024
   \<and> getMonth (fixed_offset_host 7200000) 1718452800000 = 5
   \<and> getDate (fixed_offset_host 7200000) 1718452800000 = 15
   \<and> list_all (\<lambda>s. Date_parse (fixed_offset_host 7200000) s = parse_date_only s)
        [''2023-07-14'', ''2023-07-15'', ''2023-07-16'']
   \<and> \<bar>LocalTZA (fixed_offset_host 7200000) 1689379200000 False\<bar> < msPerDay
   \<and> 0 \<le> LocalTZA (fixed_offset_host 7200000) 1689379200000 False
   \<and> cutoffDate (fixed_offset_host 7200000) 1718452800000 11 = Some 1689372000000
   \<and> filterLastNMonths (fixed_offset_host 7200000) 1718452800000
        [\<lparr>date = ''2023-07-14'', count = 1, level = 1\<rparr>, \<lparr>date = ''2023-07-15'', count = 2, level = 1\<rparr>,
         \<lparr>date = ''2023-07-16'', count = 3, level = 1\<rparr>] None
     = [\<lparr>date = ''2023-07-15'', count = 2, level = 1\<rparr>, \<lparr>date = ''2023-07-16'', count = 3, level = 1\<rparr>]"
proof -
  let ?h = "fixed_offset_host 7200000"
  have g: "getFullYear ?h 1718452800000 = 2024" "getMonth ?h 1718452800000 = 5"
    "getDate ?h 1718452800000 = 15"
    by code_simp+
  have p: "list_all (\<lambda>s. Date_parse ?h s = parse_date_only s) [''2023-07-14'', ''2023-07-15'', ''2023-07-16'']"
    by (simp add: fixed_offset_host_def)
  have z: "\<bar>LocalTZA ?h 1689379200000 False\<bar> < msPerDay" "0 \<le> LocalTZA ?h 1689379200000 False"
    by (simp_all add: fixed_offset_host_def msPerDay_def)
  note th = default_window_2024_06_15 [OF g p z(1), of "[]" 1 1 2 1 3 1]
  have "LocalTZA ?h 1689379200000 False = 7200000"
    by (simp add: fixed_offset_host_def)
  with th [THEN conjunct2, THEN conjunct2, THEN conjunct1]
  have c: "cutoffDate ?h 1718452800000 11 = Some 1689372000000"
    by simp
  from th z(2) have f: "filterLastNMonths ?h 1718452800000
        [\<lparr>date = ''2023-07-14'', count = 1, level = 1\<rparr>, \<lparr>date = ''2023-07-15'', count = 2, level = 1\<rparr>,
         \<lparr>date = ''2023-07-16'', count = 3, level = 1\<rparr>] None
     = [\<lparr>date = ''2023-07-15'', count = 2, level = 1\<rparr>, \<lparr>date = ''2023-07-16'', count = 3, level = 1\<rparr>]"
    by blast
  from g p z c f show ?thesis by blast
qed

text \<open>
  The claim as written fails five hours behind UTC: the cutoff is 2023-07-15T05:00Z and the
  contribution dated 2023-07-15, read as 2023-07-15T00:00Z, lies before it.
\<close>

theorem default_window_west_of_UTC_counterexample:
  "getFullYear (fixed_offset_host (- 18000000)) 1718452800000 = 2024
   \<and> getMonth (fixed_offset_host (- 18000000)) 1718452800000 = 5
   \<and> getDate (fixed_offset_host (- 18000000)) 1718452800000 = 15
   \<and> cutoffDate (fixed_offset_host (- 18000000)) 1718452800000 11 = Some 1689397200000
   \<and> new_Date_string (fixed_offset_host (- 18000000)) ''2023-07-15'' = Some 1689379200000
   \<and> filterLastNMonths (fixed_offset_host (- 18000000)) 1718452800000
        [\<lparr>date = ''2023-07-14'', count = 1, level = 1\<rparr>, \<lparr>date = ''2023-07-15'', count = 2, level = 1\<rparr>,
         \<lparr>date = ''2023-07-16'', count = 3, level = 1\<rparr>] None
     = [\<lparr>date = ''2023-07-16'', count = 3, level = 1\<rparr>]"
  by code_simp

text \<open>
  C7 (as amended). With a window of 0 months the loop does not run and the cutoff is
  \<open>new Date(year, month, day)\<close> of \<open>today\<close>'s own calendar fields: midnight local time at
  the start of \<open>today\<close>'s day, the time of day dropped (for a clock not in the years 0 to
  99, which the constructor reads as 1900 to 1999). A contribution is kept if and only if
  its date is at or after that midnight.
\<close>

theorem zero_window_cutoff_local_midnight:
  "cutoffDate h today 0 = new_Date_ymd h (getFullYear h today) (getMonth h today) (getDate h today)
   \<and> filterLastNMonths h today contributions (Some 0) =
       filter (\<lambda>day. date_ge (new_Date_string h (date day)) (cutoffDate h today 0)) contributions
   \<and> (\<not> (0 \<le> getFullYear h today \<and> getFullYear h today \<le> 99) \<longrightarrow>
        cutoffDate h today 0 = TimeClip (UTC h (LocalTime h today - LocalTime h today mod msPerDay)))
   \<and> (\<not> (0 \<le> getFullYear (fixed_offset_host off) today \<and> getFullYear (fixed_offset_host off) today \<le> 99) \<longrightarrow>
        cutoffDate (fixed_offset_host off) today 0 = TimeClip (today - (today + off) mod msPerDay))"
proof -
  have a: "cutoffDate h today 0 = new_Date_ymd h (getFullYear h today) (getMonth h today) (getDate h today)" for h
    by (rule cutoffDate_zero)
  have b: "filterLastNMonths h today contributions (Some 0) =
       filter (\<lambda>day. date_ge (new_Date_string h (date day)) (cutoffDate h today 0)) contributions"
    by (rule filterLastNMonths_Some)
  have c: "cutoffDate h today 0 = TimeClip (UTC h (LocalTime h today - LocalTime h today mod msPerDay))"
    if "\<not> (0 \<le> getFullYear h today \<and> getFullYear h today \<le> 99)" for h
    using local_midnight [OF that] by (simp only: a)
  have d: "cutoffDate (fixed_offset_host off) today 0 = TimeClip (today - (today + off) mod msPerDay)"
    if "\<not> (0 \<le> getFullYear (fixed_offset_host off) today \<and> getFullYear (fixed_offset_host off) today \<le> 99)"
    using c [OF that] by (simp add: UTC_def LocalTime_def fixed_offset_host_def)
  from a b c d show ?thesis by blast
qed

theorem zero_window_cutoff_local_midnight_witness:
  "\<not> (0 \<le> getFullYear (fixed_offset_host 7200000) 1718452800000
        \<and> getFullYear (fixed_offset_host 7200000) 1718452800000 \<le> 99)
   \<and> cutoffDate (fixed_offset_host 7200000) 1718452800000 0 = Some 1718402400000
   \<and> filterLastNMonths (fixed_offset_host 7200000) 1718452800000
        [\<lparr>date = ''2024-06-14'', count = 5, level = 2\<rparr>, \<lparr>date = ''2024-06-15'', count = 1, level = 1\<rparr>] (Some 0)
      = [\<lparr>date = ''2024-06-15'', count = 1, level = 1\<rparr>]"
proof -
  let ?h = "fixed_offset_host 7200000"
  let ?cs = "[\<lparr>date = ''2024-06-14'', count = 5, level = 2\<rparr>, \<lparr>date = ''2024-06-15'', count = 1, level = 1\<rparr>]"
  note th = zero_window_cutoff_local_midnight [of ?h 1718452800000 ?cs 7200000]
  have "getFullYear ?h 1718452800000 = 2024" by code_simp
  then have g: "\<not> (0 \<le> getFullYear ?h 1718452800000 \<and> getFullYear ?h 1718452800000 \<le> 99)"
    by simp
  with th have "cutoffDate ?h 1718452800000 0 = TimeClip (1718452800000 - (1718452800000 + 7200000) mod msPerDay)"
    by blast
  then have c: "cutoffDate ?h 1718452800000 0 = Some 1718402400000"
    by (simp add: TimeClip_def msPerDay_def)
  have p: "new_Date_string ?h ''2024-06-14'' = Some 1718323200000"
    "new_Date_string ?h ''2024-06-15'' = Some 1718409600000"
    by code_simp+
  from th have "filterLastNMonths ?h 1718452800000 ?cs (Some 0) =
      filter (\<lambda>day. date_ge (new_Date_string ?h (date day)) (cutoffDate ?h 1718452800000 0)) ?cs"
    by blast
  then have f: "filterLastNMonths ?h 1718452800000 ?cs (Some 0) = [\<lparr>date = ''2024-06-15'', count = 1, level = 1\<rparr>]"
    by (simp add: c p date_ge_def)
  from g c f show ?thesis by blast
qed

text \<open>
  The claim as written fails at noon: the cutoff is midnight, not the instant of the clock,
  and a contribution dated that day, which lies before the instant, is kept.
\<close>

theorem zero_window_cutoff_not_now_counterexample:
  "cutoffDate (fixed_offset_host 0) 1718452800000 0 = Some 1718409600000
   \<and> cutoffDate (fixed_offset_host 0) 1718452800000 0 \<noteq> Some 1718452800000
   \<and> new_Date_string (fixed_offset_host 0) ''2024-06-15'' = Some 1718409600000
   \<and> \<not> date_ge (new_Date_string (fixed_offset_host 0) ''2024-06-15'') (Some 1718452800000)
   \<and> filterLastNMonths (fixed_offset_host 0) 1718452800000
        [\<lparr>date = ''2024-06-15'', count = 1, level = 1\<rparr>] (Some 0)
      = [\<lparr>date = ''2024-06-15'', count = 1, level = 1\<rparr>]"
  by code_simp

text \<open>
  C8 (as amended). A contribution whose date string the host's parser cannot read, or whose
  time value is out of the range of a \<open>Date\<close>, gives an invalid date; the comparison with
  the cutoff is then false, so the record is left out and the rest of the result is what it
  would be without it, for every clock and every window (also the default). Nothing in the
  function throws. Every other record is kept exactly when the time value that the parser
  gives is at or after the cutoff, whatever the string: a day that does not exist in its
  month and that the parser rolls over (\<open>2024-02-30\<close> read as \<open>2024-03-01\<close>) is
  compared as the rolled-over date.
\<close>

theorem invalid_date_excluded:
  assumes "Date_parse h (date day) = None
         \<or> (\<exists>tv. Date_parse h (date day) = Some tv \<and> 8640000000000000 < \<bar>tv\<bar>)"
  shows "new_Date_string h (date day) = None
       \<and> day \<notin> set (filterLastNMonths h today contributions months)
       \<and> filterLastNMonths h today (before @ day # after) months
           = filterLastNMonths h today (before @ after) months
       \<and> (\<forall>d tv. Date_parse h (date d) = Some tv \<longrightarrow> \<bar>tv\<bar> \<le> 8640000000000000 \<longrightarrow>
            (d \<in> set (filterLastNMonths h today contributions months))
            = (d \<in> set contributions
               \<and> date_ge (Some tv) (cutoffDate h today (case months of None \<Rightarrow> 11 | Some m \<Rightarrow> m))))
       \<and> parse_date_only ''2024-02-30'' = Some 1709251200000
       \<and> parse_date_only ''2024-03-01'' = Some 1709251200000"
proof -
  from assms have n: "new_Date_string h (date day) = None"
    by (auto simp: new_Date_string_None)
  then have "\<not> date_ge (new_Date_string h (date day)) c" for c
    by (simp add: date_ge_def)
  with n have a: "new_Date_string h (date day) = None
       \<and> day \<notin> set (filterLastNMonths h today contributions months)
       \<and> filterLastNMonths h today (before @ day # after) months
           = filterLastNMonths h today (before @ after) months"
    by (simp add: filterLastNMonths_def)
  have b: "(d \<in> set (filterLastNMonths h today contributions months))
            = (d \<in> set contributions
               \<and> date_ge (Some tv) (cutoffDate h today (case months of None \<Rightarrow> 11 | Some m \<Rightarrow> m)))"
    if "Date_parse h (date d) = Some tv" and "\<bar>tv\<bar> \<le> 8640000000000000" for d tv
    using that by (simp add: filterLastNMonths_def new_Date_string_def TimeClip_def)
  have c: "parse_date_only ''2024-02-30'' = Some 1709251200000"
    "parse_date_only ''2024-03-01'' = Some 1709251200000"
    by code_simp+
  from a b c show ?thesis by blast
qed

theorem invalid_date_excluded_witness:
  "Date_parse (fixed_offset_host 0) (date \<lparr>date = ''soon'', count = 2, level = 1\<rparr>) = None
   \<and> Date_parse (fixed_offset_host 0) (date \<lparr>date = ''2024-13-45'', count = 2, level = 1\<rparr>) = None
   \<and> filterLastNMonths (fixed_offset_host 0) 1718452800000
        ([\<lparr>date = ''2024-06-01'', count = 7, level = 3\<rparr>] @ \<lparr>date = ''soon'', count = 2, level = 1\<rparr> # []) None
      = [\<lparr>date = ''2024-06-01'', count = 7, level = 3\<rparr>]
   \<and> \<lparr>date = ''2024-13-45'', count = 2, level = 1\<rparr>
        \<notin> set (filterLastNMonths (fixed_offset_host 0) 1718452800000
             [\<lparr>date = ''2024-13-45'', count = 2, level = 1\<rparr>] None)"
proof -
  let ?h = "fixed_offset_host 0"
  let ?bad = "\<lparr>date = ''soon'', count = 2, level = 1\<rparr>"
  let ?bad2 = "\<lparr>date = ''2024-13-45'', count = 2, level = 1\<rparr>"
  let ?ok = "\<lparr>date = ''2024-06-01'', count = 7, level = 3\<rparr>"
  have p: "Date_parse ?h (date ?bad) = None" "Date_parse ?h (date ?bad2) = None"
    by code_simp+
  have o: "filterLastNMonths ?h 1718452800000 ([?ok] @ []) None = [?ok]"
    by code_simp
  note t1 = invalid_date_excluded [OF disjI1, OF p(1), of 1718452800000 "[]" None "[?ok]" "[]"]
  from t1 [THEN conjunct2, THEN conjunct2, THEN conjunct1] o
  have a: "filterLastNMonths ?h 1718452800000 ([?ok] @ ?bad # []) None = [?ok]"
    by simp
  note t2 = invalid_date_excluded [OF disjI1, OF p(2), of 1718452800000 "[?bad2]" None "[]" "[]"]
  from t2 [THEN conjunct2, THEN conjunct1]
  have b: "?bad2 \<notin> set (filterLastNMonths ?h 1718452800000 [?bad2] None)" .
  from p a b show ?thesis by blast
qed

text \<open>
  The claim as written fails for such a date: \<open>2024-02-30\<close> is read as 2024-03-01, which
  is after the cutoff 2023-07-15 of the clock 2024-06-15, and the record is kept.
\<close>

theorem rolled_over_date_included_counterexample:
  "new_Date_string (fixed_offset_host 0) ''2024-02-30'' = Some 1709251200000
   \<and> cutoffDate (fixed_offset_host 0) 1718452800000 11 = Some 1689379200000
   \<and> filterLastNMonths (fixed_offset_host 0) 1718452800000
        [\<lparr>date = ''2024-02-30'', count = 2, level = 1\<rparr>] None
      = [\<lparr>date = ''2024-02-30'', count = 2, level = 1\<rparr>]"
  by code_simp

end
